theory Spec2Isabelle
  imports Main
begin

section \<open>The WebSocket transport session (\<open>WebSocketTransportSession\<close>)\<close>

text \<open>
  The session wraps one \<open>ws\<close> socket. Its \<open>send\<close> is an async function: it registers a
  one-shot \<open>pong\<close> listener on the socket, pings the peer, starts a 10 second timer and
  awaits the timer's promise. What happens afterwards is driven by the event loop: a
  pong arrives, the socket invokes a write callback, a timer fires. Every call of \<open>send\<close>
  has its own \<open>success\<close> and \<open>timeoutId\<close> and adds its own listener, and the listeners of
  all calls sit on the same socket. The model therefore keeps the list of the calls made
  on a session, each with its local variables and its promise, and the listeners and
  outstanding write callbacks of the socket, each named by the number of its call.
  \<open>send\<close> is the synchronous prefix of a call (up to the \<open>await\<close>), \<open>step\<close> runs the
  callbacks belonging to one event, and a run of the event loop is a list of events.
\<close>

datatype ready_state = CONNECTING | OPEN | CLOSING | CLOSED

text \<open>Both errors of the source are \<open>AriesFrameworkError\<close>s; they differ by message only.\<close>

datatype error = AriesFrameworkError string

text \<open>The promise returned by the async function \<open>send\<close>.\<close>

datatype promise = Pending | Resolved | Rejected error

text \<open>
  \<open>timeoutId\<close>: \<open>null\<close> before \<open>delay\<close> has run, then a timer that is armed, has been
  cancelled by \<open>clearTimeout\<close>, or has fired (and called \<open>resolve\<close>).
\<close>

datatype timer = Null | Armed | Cleared | Fired

text \<open>
  What the session does to the outside: calls on the socket, log lines, and an
  exception that leaves a callback (it reaches the event loop, not the caller of
  \<open>send\<close>). \<open>Write i d\<close> is the call \<open>socket.send(d, callback)\<close> made by the listener of
  call \<open>i\<close>.
\<close>

datatype effect =
    Ping string
  | Write nat string
  | LogDebug string
  | LogError string
  | Uncaught error
  | SocketClose

text \<open>One call of \<open>send\<close>: its argument, its local variables and its promise.\<close>

record 'm call =
  encryptedMessage :: 'm
  success :: bool
  timeoutId :: timer
  outcome :: promise

text \<open>
  The session with its socket. \<open>pong_listeners\<close> are the listeners registered by
  \<open>socket.once("pong", ...)\<close> and not yet run, in the order of their registration;
  \<open>write_cbs\<close> are the callbacks handed to \<open>socket.send\<close> that the socket has not invoked
  yet. \<open>uncaught_handler\<close> says whether the process has a handler for uncaught
  exceptions; without one an exception that leaves a callback ends the process.
\<close>

record 'm session =
  readyState :: ready_state
  calls :: "'m call list"
  pong_listeners :: "nat list"
  write_cbs :: "nat list"
  effects :: "effect list"
  uncaught_handler :: bool

text \<open>A session as constructed, in a process as the sample mediator sets it up: it
  installs no handler for uncaught exceptions.\<close>

definition new_session :: "ready_state \<Rightarrow> 'm session" where
  "new_session rs =
     \<lparr>readyState = rs, calls = [], pong_listeners = [], write_cbs = [], effects = [],
      uncaught_handler = False\<rparr>"

definition session_type :: string where
  "session_type = ''WebSocket''"

definition closed_error :: error where
  "closed_error = AriesFrameworkError (session_type @ '' transport session has been closed.'')"

definition send_failed_error :: error where
  "send_failed_error = AriesFrameworkError (session_type @ '' send message failed.'')"

text \<open>
  The synchronous part of \<open>send\<close>. On a socket that is not open the call is rejected at
  once. Otherwise the call gets \<open>success = false\<close>, a new \<open>pong\<close> listener is added to
  those already on the socket, the peer is pinged and the timer of \<open>delay(10000, ...)\<close>
  is armed; the call then waits. The new call is the last of \<open>calls\<close>, so its number is
  the length of \<open>calls\<close> before.
\<close>

definition send :: "'m \<Rightarrow> 'm session \<Rightarrow> 'm session" where
  "send m s =
     (if readyState s \<noteq> OPEN
      then s\<lparr>calls := calls s @
                [\<lparr>encryptedMessage = m, success = False, timeoutId = Null,
                  outcome = Rejected closed_error\<rparr>]\<rparr>
      else s\<lparr>calls := calls s @
                [\<lparr>encryptedMessage = m, success = False, timeoutId = Armed,
                  outcome = Pending\<rparr>],
             pong_listeners := pong_listeners s @ [length (calls s)],
             effects := effects s @ [Ping ''ping'']\<rparr>)"

text \<open>
  The events of the loop: a further call of \<open>send\<close>, the peer's pong, the socket
  invoking the write callback of a call (with the text of the error, if any), the timer
  of a call running out, and the socket changing its readiness.
\<close>

datatype 'm event =
    Call 'm
  | Pong
  | WriteDone nat "string option"
  | Timeout nat
  | Ready ready_state

definition update_call :: "nat \<Rightarrow> ('m call \<Rightarrow> 'm call) \<Rightarrow> 'm session \<Rightarrow> 'm session" where
  "update_call i g s = s\<lparr>calls := (calls s)[i := g (calls s ! i)]\<rparr>"

text \<open>The \<open>pong\<close> listener of call \<open>i\<close> hands the serialised message of that call to
  \<open>socket.send\<close> together with a callback.\<close>

definition pong_listener :: "('m \<Rightarrow> string) \<Rightarrow> nat \<Rightarrow> 'm session \<Rightarrow> 'm session" where
  "pong_listener stringify i s =
     s\<lparr>effects := effects s @ [Write i (stringify (encryptedMessage (calls s ! i)))],
       write_cbs := write_cbs s @ [i]\<rparr>"

text \<open>A pong runs every listener registered at that moment, each once (\<open>once\<close> removes
  it), in the order of registration.\<close>

definition on_pong :: "('m \<Rightarrow> string) \<Rightarrow> 'm session \<Rightarrow> 'm session" where
  "on_pong stringify s =
     fold (pong_listener stringify) (pong_listeners s) (s\<lparr>pong_listeners := []\<rparr>)"

definition clearTimeout :: "timer \<Rightarrow> timer" where
  "clearTimeout t = (if t = Armed then Cleared else t)"

text \<open>The write callback of call \<open>i\<close> can be invoked when the socket still holds it.\<close>

definition outstanding :: "nat \<Rightarrow> 'm session \<Rightarrow> bool" where
  "outstanding i s = (i \<in> set (write_cbs s) \<and> i < length (calls s))"

text \<open>The callback of \<open>socket.send\<close>. With an error it logs and throws inside the
  callback; without one it logs, sets \<open>success\<close> and clears the timer of its call.\<close>

definition on_write_done :: "nat \<Rightarrow> string option \<Rightarrow> 'm session \<Rightarrow> 'm session" where
  "on_write_done i err s =
     (if \<not> outstanding i s then s
      else (case err of
              Some e \<Rightarrow>
                s\<lparr>write_cbs := remove1 i (write_cbs s),
                  effects := effects s @
                    [LogError (''Error sending message: '' @ e),
                     Uncaught send_failed_error]\<rparr>
            | None \<Rightarrow>
                update_call i (\<lambda>c. c\<lparr>success := True,
                                      timeoutId := clearTimeout (timeoutId c)\<rparr>)
                  (s\<lparr>write_cbs := remove1 i (write_cbs s),
                     effects := effects s @
                       [LogDebug (session_type @ '' sent message successfully.'')]\<rparr>)))"

text \<open>The events whose callback throws: a write callback that is given an error.\<close>

definition throws :: "'m event \<Rightarrow> 'm session \<Rightarrow> bool" where
  "throws e s = (case e of WriteDone i (Some _) \<Rightarrow> outstanding i s | _ \<Rightarrow> False)"

text \<open>The timer of call \<open>i\<close> calls \<open>resolve\<close>, the \<open>await\<close> returns and the rest of that
  call runs. A timer that is not armed does not fire.\<close>

definition on_timeout :: "nat \<Rightarrow> 'm session \<Rightarrow> 'm session" where
  "on_timeout i s =
     (if \<not> i < length (calls s) \<or> timeoutId (calls s ! i) \<noteq> Armed then s
      else if \<not> success (calls s ! i)
        then update_call i (\<lambda>c. c\<lparr>timeoutId := Fired, outcome := Rejected send_failed_error\<rparr>)
               (s\<lparr>effects := effects s @ [LogError ''Error pinging endpoint'']\<rparr>)
        else update_call i (\<lambda>c. c\<lparr>timeoutId := Fired, outcome := Resolved\<rparr>) s)"

fun step :: "('m \<Rightarrow> string) \<Rightarrow> 'm event \<Rightarrow> 'm session \<Rightarrow> 'm session" where
  "step stringify (Call m) s = send m s"
| "step stringify Pong s = on_pong stringify s"
| "step stringify (WriteDone i err) s = on_write_done i err s"
| "step stringify (Timeout i) s = on_timeout i s"
| "step stringify (Ready rs) s = s\<lparr>readyState := rs\<rparr>"

text \<open>
  The event loop. When a callback throws and the process has no handler for uncaught
  exceptions, the process ends there and the remaining events never happen.
\<close>

fun run :: "('m \<Rightarrow> string) \<Rightarrow> 'm event list \<Rightarrow> 'm session \<Rightarrow> 'm session" where
  "run stringify [] s = s"
| "run stringify (e # es) s =
     (if throws e s \<and> \<not> uncaught_handler s then step stringify e s
      else run stringify es (step stringify e s))"

text \<open>
  \<open>close\<close> calls \<open>socket.close()\<close> when the socket is open. \<open>socket.close\<close> belongs to the
  \<open>ws\<close> library, so it is a parameter here; \<open>ws_close\<close> is what the library does to an
  open socket (it enters the closing handshake).
\<close>

definition close :: "('m session \<Rightarrow> 'm session) \<Rightarrow> 'm session \<Rightarrow> 'm session" where
  "close socket_close s = (if readyState s = OPEN then socket_close s else s)"

definition ws_close :: "'m session \<Rightarrow> 'm session" where
  "ws_close s = s\<lparr>readyState := CLOSING, effects := effects s @ [SocketClose]\<rparr>"

text \<open>Among a list of effects: the payloads handed to \<open>socket.send\<close>, those handed over
  by the listener of call \<open>c\<close>, the calls whose listeners made the writes, and the pings.\<close>

definition writes :: "effect list \<Rightarrow> string list" where
  "writes es = concat (map (\<lambda>e. case e of Write i d \<Rightarrow> [d] | _ \<Rightarrow> []) es)"

definition writes_by :: "nat \<Rightarrow> effect list \<Rightarrow> string list" where
  "writes_by c es =
     concat (map (\<lambda>e. case e of Write i d \<Rightarrow> (if i = c then [d] else []) | _ \<Rightarrow> []) es)"

definition writers :: "effect list \<Rightarrow> nat list" where
  "writers es = concat (map (\<lambda>e. case e of Write i d \<Rightarrow> [i] | _ \<Rightarrow> []) es)"

definition pings :: "effect list \<Rightarrow> string list" where
  "pings es = concat (map (\<lambda>e. case e of Ping d \<Rightarrow> [d] | _ \<Rightarrow> []) es)"

text \<open>
  In a session that has come about by calls and events, every listener, callback and
  write belongs to a call that has been made.
\<close>

definition well_formed :: "'m session \<Rightarrow> bool" where
  "well_formed s =
     (list_all (\<lambda>i. i < length (calls s)) (pong_listeners s) \<and>
      list_all (\<lambda>i. i < length (calls s)) (write_cbs s) \<and>
      list_all (\<lambda>i. i < length (calls s)) (writers (effects s)))"

text \<open>
  The phases of call \<open>c\<close>, as the proofs below follow them. \<open>quiet\<close>: the call exists
  and the socket holds no write callback. \<open>waiting\<close>: moreover the listener of the call
  is registered, once, and the call has written nothing. \<open>probing\<close>: the call has not
  succeeded and is pending with its timer armed, or rejected by its timer.
  \<open>transmitting\<close>: the listener has run, the write callback is outstanding and the call
  is pending with its timer armed. \<open>unsubscribed\<close>: the listener of the call is gone.
  An event \<open>interferes\<close> with the transmitting call when it is that call's write
  callback or timer, or a write callback that is given an error.
\<close>

definition quiet :: "nat \<Rightarrow> 'm session \<Rightarrow> bool" where
  "quiet c t = (c < length (calls t) \<and> write_cbs t = [])"

definition waiting :: "nat \<Rightarrow> 'm \<Rightarrow> 'm session \<Rightarrow> bool" where
  "waiting c m t =
     (quiet c t \<and> encryptedMessage (calls t ! c) = m \<and>
      filter (\<lambda>i. i = c) (pong_listeners t) = [c] \<and> writes_by c (effects t) = [])"

definition probing :: "nat \<Rightarrow> 'm session \<Rightarrow> bool" where
  "probing c t =
     (\<not> success (calls t ! c) \<and>
      (timeoutId (calls t ! c) = Armed \<and> outcome (calls t ! c) = Pending \<or>
       timeoutId (calls t ! c) = Fired \<and> outcome (calls t ! c) = Rejected send_failed_error))"

definition transmitting :: "nat \<Rightarrow> 'm session \<Rightarrow> bool" where
  "transmitting c t =
     (c < length (calls t) \<and> c \<in> set (write_cbs t) \<and> c \<notin> set (pong_listeners t) \<and>
      \<not> success (calls t ! c) \<and> timeoutId (calls t ! c) = Armed \<and>
      outcome (calls t ! c) = Pending)"

definition unsubscribed :: "nat \<Rightarrow> 'm session \<Rightarrow> bool" where
  "unsubscribed c t = (c < length (calls t) \<and> c \<notin> set (pong_listeners t))"

definition interferes :: "nat \<Rightarrow> 'm event \<Rightarrow> bool" where
  "interferes c e =
     (case e of
        WriteDone i err \<Rightarrow> i = c \<or> err \<noteq> None
      | Timeout i \<Rightarrow> i = c
      | _ \<Rightarrow> False)"

section \<open>The inbound transport (\<open>WsInboundTransport\<close>)\<close>

text \<open>
  The transport keeps the map \<open>socketIds\<close>. Its \<open>connection\<close> handler draws a fresh id
  (\<open>utils.uuid()\<close>, an input of the event here), and for an id not in the map stores
  the socket, builds the session and registers a \<open>message\<close> and a \<open>close\<close> listener on the
  socket. Sockets are named by numbers. The collaborators are recorded by their calls:
  \<open>received\<close> lists the calls of \<open>messageReceiver.receiveMessage\<close>, \<open>removed\<close> those of
  \<open>transportService.removeSession\<close>, \<open>logged\<close> the lines given to the logger.
  \<open>JSON.parse\<close> and \<open>receiveMessage\<close> are parameters: \<open>parse\<close> returns the text of the
  exception or the parsed message, \<open>receiveMessage\<close> the text of the exception, if any.
\<close>

type_synonym socket = nat

text \<open>\<open>new WebSocketTransportSession(socketId, socket, logger)\<close>: its id and its socket.\<close>

type_synonym transport_session = "string \<times> socket"

datatype log_line = DebugLine string | ErrorLine string

record 'j transport =
  socketIds :: "string \<rightharpoonup> socket"
  message_listeners :: "(socket \<times> transport_session) list"
  close_listeners :: "(socket \<times> transport_session) list"
  received :: "('j \<times> transport_session) list"
  removed :: "transport_session list"
  logged :: "log_line list"

text \<open>A transport as constructed: \<open>socketIds = {}\<close> and no listener on any socket.\<close>

definition new_transport :: "'j transport" where
  "new_transport =
     \<lparr>socketIds = Map.empty, message_listeners = [], close_listeners = [],
      received = [], removed = [], logged = []\<rparr>"

text \<open>\<open>this.logger.debug\<close> and \<open>this.logger.error\<close>.\<close>

definition debug :: "string \<Rightarrow> 'j transport \<Rightarrow> 'j transport" where
  "debug line t = t\<lparr>logged := logged t @ [DebugLine line]\<rparr>"

definition log_error :: "string \<Rightarrow> 'j transport \<Rightarrow> 'j transport" where
  "log_error line t = t\<lparr>logged := logged t @ [ErrorLine line]\<rparr>"

text \<open>\<open>start\<close> logs and installs the \<open>connection\<close> handler, which is \<open>on_connection\<close>.\<close>

definition start :: "'j transport \<Rightarrow> 'j transport" where
  "start t = debug ''Starting WS inbound transport'' t"

text \<open>
  The \<open>connection\<close> handler. \<open>socketId\<close> is the value \<open>utils.uuid()\<close> returned; for such a
  string \<open>!this.socketIds[socketId]\<close> holds exactly when the map has no entry for it
  (the stored sockets are objects, hence truthy).
\<close>

definition on_connection :: "socket \<Rightarrow> string \<Rightarrow> 'j transport \<Rightarrow> 'j transport" where
  "on_connection socket socketId t =
     (let t1 = debug ''Socket connected.'' t in
      case socketIds t1 socketId of
        None \<Rightarrow>
          (let t2 = debug (''Saving new socket with id '' @ socketId @ ''.'') t1;
               t3 = t2\<lparr>socketIds := (socketIds t2)(socketId \<mapsto> socket)\<rparr>;
               session = (socketId, socket);
               t4 = t3\<lparr>message_listeners := message_listeners t3 @ [(socket, session)]\<rparr>
           in t4\<lparr>close_listeners := close_listeners t4 @ [(socket, session)]\<rparr>)
      | Some _ \<Rightarrow> debug (''Socket with id '' @ socketId @ '' already exists.'') t1)"

text \<open>
  The \<open>message\<close> listener installed by \<open>listenOnWebSocketMessages\<close> for one session:
  a debug line, then \<open>JSON.parse\<close> and \<open>receiveMessage\<close> inside \<open>try\<close>, with a \<open>catch\<close> that
  logs the error.
\<close>

definition handle_message ::
  "(string \<Rightarrow> string + 'j) \<Rightarrow> ('j \<Rightarrow> transport_session \<Rightarrow> string option) \<Rightarrow>
   string \<Rightarrow> transport_session \<Rightarrow> 'j transport \<Rightarrow> 'j transport" where
  "handle_message parse receiveMessage data session t =
     (let t1 = debug ''WebSocket message event received.'' t in
      case parse data of
        Inl error \<Rightarrow> log_error (''Error processing message: '' @ error) t1
      | Inr message \<Rightarrow>
          (let t2 = t1\<lparr>received := received t1 @ [(message, session)]\<rparr> in
           case receiveMessage message session of
             Some error \<Rightarrow> log_error (''Error processing message: '' @ error) t2
           | None \<Rightarrow> t2))"

text \<open>The \<open>close\<close> listener of one session.\<close>

definition handle_close :: "transport_session \<Rightarrow> 'j transport \<Rightarrow> 'j transport" where
  "handle_close session t =
     (let t1 = debug ''Socket closed.'' t in t1\<lparr>removed := removed t1 @ [session]\<rparr>)"

text \<open>An event on a socket runs the listeners registered on that socket, in the order
  of their registration.\<close>

fun emit ::
  "(transport_session \<Rightarrow> 'j transport \<Rightarrow> 'j transport) \<Rightarrow> socket \<Rightarrow>
   (socket \<times> transport_session) list \<Rightarrow> 'j transport \<Rightarrow> 'j transport" where
  "emit handler socket [] t = t"
| "emit handler socket ((s, session) # ls) t =
     emit handler socket ls (if s = socket then handler session t else t)"

definition on_message ::
  "(string \<Rightarrow> string + 'j) \<Rightarrow> ('j \<Rightarrow> transport_session \<Rightarrow> string option) \<Rightarrow>
   socket \<Rightarrow> string \<Rightarrow> 'j transport \<Rightarrow> 'j transport" where
  "on_message parse receiveMessage socket data t =
     emit (handle_message parse receiveMessage data) socket (message_listeners t) t"

definition on_close :: "socket \<Rightarrow> 'j transport \<Rightarrow> 'j transport" where
  "on_close socket t = emit handle_close socket (close_listeners t) t"

text \<open>\<open>stop\<close> logs and closes the server; the promise it returns is rejected with the
  error of the close callback, if there is one.\<close>

definition stop :: "string option \<Rightarrow> 'j transport \<Rightarrow> 'j transport \<times> (string + unit)" where
  "stop error t =
     (debug ''Closing WebSocket Server'' t,
      case error of Some e \<Rightarrow> Inl e | None \<Rightarrow> Inr ())"

datatype transport_event =
    Connection socket string
  | Message socket string
  | Close socket
  | Stop "string option"

fun transport_step ::
  "(string \<Rightarrow> string + 'j) \<Rightarrow> ('j \<Rightarrow> transport_session \<Rightarrow> string option) \<Rightarrow>
   transport_event \<Rightarrow> 'j transport \<Rightarrow> 'j transport" where
  "transport_step parse receiveMessage (Connection socket socketId) t =
     on_connection socket socketId t"
| "transport_step parse receiveMessage (Message socket data) t =
     on_message parse receiveMessage socket data t"
| "transport_step parse receiveMessage (Close socket) t = on_close socket t"
| "transport_step parse receiveMessage (Stop error) t = fst (stop error t)"

fun transport_run ::
  "(string \<Rightarrow> string + 'j) \<Rightarrow> ('j \<Rightarrow> transport_session \<Rightarrow> string option) \<Rightarrow>
   transport_event list \<Rightarrow> 'j transport \<Rightarrow> 'j transport" where
  "transport_run parse receiveMessage [] t = t"
| "transport_run parse receiveMessage (e # es) t =
     transport_run parse receiveMessage es (transport_step parse receiveMessage e t)"

text \<open>The sessions whose listeners are registered on a socket, and the events that
  accept a connection on a socket.\<close>

definition sessions_on :: "socket \<Rightarrow> (socket \<times> transport_session) list \<Rightarrow> transport_session list" where
  "sessions_on socket ls = map snd (filter (\<lambda>l. fst l = socket) ls)"

definition connects :: "socket \<Rightarrow> transport_event \<Rightarrow> bool" where
  "connects socket e = (case e of Connection s _ \<Rightarrow> s = socket | _ \<Rightarrow> False)"

text \<open>The text of the exception that the \<open>try\<close> block of the message handler
  catches for a frame, if it catches one.\<close>

definition frame_error ::
  "(string \<Rightarrow> string + 'j) \<Rightarrow> ('j \<Rightarrow> transport_session \<Rightarrow> string option) \<Rightarrow>
   string \<Rightarrow> transport_session \<Rightarrow> string option" where
  "frame_error parse receiveMessage data session =
     (case parse data of
        Inl error \<Rightarrow> Some error
      | Inr message \<Rightarrow> receiveMessage message session)"

section \<open>Runs of the event loop\<close>

lemma writes_append [simp]: "writes (xs @ ys) = writes xs @ writes ys"
  by (simp add: writes_def)

lemma writes_by_append [simp]: "writes_by c (xs @ ys) = writes_by c xs @ writes_by c ys"
  by (simp add: writes_by_def)

lemma writers_append [simp]: "writers (xs @ ys) = writers xs @ writers ys"
  by (simp add: writers_def)

lemma writes_simps [simp]:
  "writes [] = []"
  "writes (Write i d # es) = d # writes es"
  "writes (Ping p # es) = writes es"
  "writes (LogDebug p # es) = writes es"
  "writes (LogError p # es) = writes es"
  "writes (Uncaught x # es) = writes es"
  "writes (SocketClose # es) = writes es"
  by (simp_all add: writes_def)

lemma writes_by_simps [simp]:
  "writes_by c [] = []"
  "writes_by c (Write i d # es) = (if i = c then d # writes_by c es else writes_by c es)"
  "writes_by c (Ping p # es) = writes_by c es"
  "writes_by c (LogDebug p # es) = writes_by c es"
  "writes_by c (LogError p # es) = writes_by c es"
  "writes_by c (Uncaught x # es) = writes_by c es"
  "writes_by c (SocketClose # es) = writes_by c es"
  by (simp_all add: writes_by_def)

lemma writers_simps [simp]:
  "writers [] = []"
  "writers (Write i d # es) = i # writers es"
  "writers (Ping p # es) = writers es"
  "writers (LogDebug p # es) = writers es"
  "writers (LogError p # es) = writers es"
  "writers (Uncaught x # es) = writers es"
  "writers (SocketClose # es) = writers es"
  by (simp_all add: writers_def)

lemma writes_by_listeners:
  "writes_by c (map (\<lambda>i. Write i (g i)) ls) = map g (filter (\<lambda>i. i = c) ls)"
  by (induction ls) auto

lemma writers_listeners: "writers (map (\<lambda>i. Write i (g i)) ls) = ls"
  by (induction ls) auto

lemma writes_by_fresh:
  "list_all (\<lambda>i. i < c) (writers es) \<Longrightarrow> writes_by c es = []"
proof (induction es)
  case Nil
  then show ?case by simp
next
  case (Cons e es)
  then show ?case by (cases e) auto
qed

lemma fold_pong_listener:
  "fold (pong_listener f) ls t =
     t\<lparr>effects := effects t @ map (\<lambda>i. Write i (f (encryptedMessage (calls t ! i)))) ls,
       write_cbs := write_cbs t @ ls\<rparr>"
  by (induction ls arbitrary: t) (simp_all add: pong_listener_def)

lemma on_pong_eq:
  "on_pong f s =
     s\<lparr>pong_listeners := [],
       effects := effects s @
         map (\<lambda>i. Write i (f (encryptedMessage (calls s ! i)))) (pong_listeners s),
       write_cbs := write_cbs s @ pong_listeners s\<rparr>"
  by (simp add: on_pong_def fold_pong_listener)

text \<open>The handlers, unfolded.\<close>

lemmas step_defs = send_def on_pong_eq on_write_done_def on_timeout_def update_call_def
  outstanding_def clearTimeout_def

lemma step_handler [simp]: "uncaught_handler (step f e s) = uncaught_handler s"
  by (cases e) (auto simp: step_defs split: option.splits)

lemma run_handler [simp]: "uncaught_handler (run f evs s) = uncaught_handler s"
  by (induction evs arbitrary: s) auto

text \<open>While the socket holds no write callback and no pong arrives, no callback
  throws, nothing is written, and the run goes on event by event.\<close>

lemma quiet_step:
  "quiet c t \<Longrightarrow> e \<noteq> Pong \<Longrightarrow>
     quiet c (step f e t) \<and> \<not> throws e t \<and>
     writes (effects (step f e t)) = writes (effects t)"
  by (cases e)
     (auto simp: quiet_def throws_def step_defs split: option.splits)

lemma quiet_run:
  "quiet c t \<Longrightarrow> Pong \<notin> set pre \<Longrightarrow>
     run f (pre @ rest) t = run f rest (run f pre t) \<and>
     quiet c (run f pre t) \<and> writes (effects (run f pre t)) = writes (effects t)"
proof (induction pre arbitrary: t)
  case Nil
  then show ?case by simp
next
  case (Cons e pre)
  from Cons.prems have ne: "e \<noteq> Pong" and rest: "Pong \<notin> set pre" by auto
  from quiet_step [OF Cons.prems(1) ne, where f = f]
  have q: "quiet c (step f e t)" and nt: "\<not> throws e t"
    and wr: "writes (effects (step f e t)) = writes (effects t)" by auto
  from Cons.IH [OF q rest] nt wr show ?case by simp
qed

text \<open>Until a pong arrives a call stays as \<open>send\<close> left it, or is rejected by its timer.\<close>

lemma probing_step:
  "quiet c t \<Longrightarrow> probing c t \<Longrightarrow> e \<noteq> Pong \<Longrightarrow> probing c (step f e t)"
  by (cases e)
     (auto simp: quiet_def probing_def step_defs nth_append nth_list_update
           split: option.splits)

lemma probing_run:
  "quiet c t \<Longrightarrow> probing c t \<Longrightarrow> Pong \<notin> set pre \<Longrightarrow> probing c (run f pre t)"
proof (induction pre arbitrary: t)
  case Nil
  then show ?case by simp
next
  case (Cons e pre)
  from Cons.prems have ne: "e \<noteq> Pong" and rest: "Pong \<notin> set pre" by auto
  from quiet_step [OF Cons.prems(1) ne, where f = f]
  have q: "quiet c (step f e t)" and nt: "\<not> throws e t" by auto
  from probing_step [OF Cons.prems(1,2) ne, where f = f]
  have p: "probing c (step f e t)" .
  from Cons.IH [OF q p rest] nt show ?case by simp
qed

lemma probing_timeout:
  "quiet c t \<Longrightarrow> probing c t \<Longrightarrow>
     timeoutId (calls (on_timeout c t) ! c) = Fired \<and>
     outcome (calls (on_timeout c t) ! c) = Rejected send_failed_error"
  by (auto simp: quiet_def probing_def step_defs)

lemma armed_step:
  "quiet c t \<Longrightarrow> timeoutId (calls t ! c) = Armed \<Longrightarrow> outcome (calls t ! c) = Pending \<Longrightarrow>
   \<not> success (calls t ! c) \<Longrightarrow> e \<noteq> Pong \<Longrightarrow> e \<noteq> Timeout c \<Longrightarrow>
     timeoutId (calls (step f e t) ! c) = Armed \<and> outcome (calls (step f e t) ! c) = Pending \<and>
     \<not> success (calls (step f e t) ! c)"
  by (cases e)
     (auto simp: quiet_def step_defs nth_append nth_list_update split: option.splits)

lemma armed_run:
  "quiet c t \<Longrightarrow> timeoutId (calls t ! c) = Armed \<Longrightarrow> outcome (calls t ! c) = Pending \<Longrightarrow>
   \<not> success (calls t ! c) \<Longrightarrow> Pong \<notin> set pre \<Longrightarrow> Timeout c \<notin> set pre \<Longrightarrow>
     timeoutId (calls (run f pre t) ! c) = Armed \<and> outcome (calls (run f pre t) ! c) = Pending \<and>
     \<not> success (calls (run f pre t) ! c)"
proof (induction pre arbitrary: t)
  case Nil
  then show ?case by simp
next
  case (Cons e pre)
  from Cons.prems have ne: "e \<noteq> Pong" and nt: "e \<noteq> Timeout c"
    and rest: "Pong \<notin> set pre" "Timeout c \<notin> set pre" by auto
  from quiet_step [OF Cons.prems(1) ne, where f = f]
  have q: "quiet c (step f e t)" and nth: "\<not> throws e t" by auto
  from armed_step [OF Cons.prems(1,2,3,4) ne nt, where f = f]
  have a: "timeoutId (calls (step f e t) ! c) = Armed"
    and o: "outcome (calls (step f e t) ! c) = Pending"
    and s: "\<not> success (calls (step f e t) ! c)" by auto
  from Cons.IH [OF q a o s rest] nth show ?case by simp
qed

text \<open>The listener of a waiting call stays registered until a pong arrives; the call the
  state is about is the newest when it starts.\<close>

lemma waiting_step:
  "waiting c m t \<Longrightarrow> e \<noteq> Pong \<Longrightarrow> waiting c m (step f e t) \<and> \<not> throws e t"
  by (cases e)
     (auto simp: waiting_def quiet_def throws_def step_defs nth_append nth_list_update
           split: option.splits)

lemma waiting_run:
  "waiting c m t \<Longrightarrow> Pong \<notin> set pre \<Longrightarrow> waiting c m (run f pre t)"
proof (induction pre arbitrary: t)
  case Nil
  then show ?case by simp
next
  case (Cons e pre)
  from Cons.prems have ne: "e \<noteq> Pong" and rest: "Pong \<notin> set pre" by auto
  from waiting_step [OF Cons.prems(1) ne, where f = f]
  have w: "waiting c m (step f e t)" and nt: "\<not> throws e t" by auto
  from Cons.IH [OF w rest] nt show ?case by simp
qed

lemma waiting_send:
  "readyState s = OPEN \<Longrightarrow> well_formed s \<Longrightarrow> write_cbs s = [] \<Longrightarrow>
     waiting (length (calls s)) m (send m s)"
  by (auto simp: waiting_def quiet_def well_formed_def send_def writes_by_fresh
                 list_all_iff filter_empty_conv)

lemma quiet_send:
  "write_cbs s = [] \<Longrightarrow> quiet (length (calls s)) (send m s)"
  by (simp add: quiet_def send_def)

lemma armed_send:
  "readyState s = OPEN \<Longrightarrow>
     timeoutId (calls (send m s) ! length (calls s)) = Armed \<and>
     outcome (calls (send m s) ! length (calls s)) = Pending \<and>
     \<not> success (calls (send m s) ! length (calls s))"
  by (simp add: send_def)

lemma probing_send: "readyState s = OPEN \<Longrightarrow> probing (length (calls s)) (send m s)"
  by (simp add: probing_def send_def)

text \<open>Once its listener is gone, a call hands nothing to the socket any more. The first
  pong of a run makes a waiting call write its message, and that is its only write.\<close>

lemma unsubscribed_step:
  "unsubscribed c t \<Longrightarrow>
     unsubscribed c (step f e t) \<and> writes_by c (effects (step f e t)) = writes_by c (effects t)"
  by (cases e)
     (auto simp: unsubscribed_def step_defs writes_by_listeners filter_empty_conv
           split: option.splits)

lemma unsubscribed_run:
  "unsubscribed c t \<Longrightarrow>
     unsubscribed c (run f evs t) \<and> writes_by c (effects (run f evs t)) = writes_by c (effects t)"
proof (induction evs arbitrary: t)
  case Nil
  then show ?case by simp
next
  case (Cons e evs)
  from unsubscribed_step [OF Cons.prems, of f e]
  have u: "unsubscribed c (step f e t)"
    and w: "writes_by c (effects (step f e t)) = writes_by c (effects t)" by auto
  from Cons.IH [OF u] u w show ?case by simp
qed

lemma waiting_pong:
  "waiting c m t \<Longrightarrow>
     unsubscribed c (on_pong f t) \<and> writes_by c (effects (on_pong f t)) = [f m] \<and>
     c \<in> set (write_cbs (on_pong f t)) \<and> calls (on_pong f t) = calls t"
proof -
  assume w: "waiting c m t"
  then have fl: "filter (\<lambda>i. i = c) (pong_listeners t) = [c]" by (simp add: waiting_def)
  then have "c \<in> set (filter (\<lambda>i. i = c) (pong_listeners t))" by simp
  then have "c \<in> set (pong_listeners t)" by simp
  with w fl show ?thesis
    by (simp add: waiting_def quiet_def unsubscribed_def on_pong_eq writes_by_listeners)
qed

lemma waiting_writes:
  "waiting c m t \<Longrightarrow>
     writes_by c (effects (run f evs t)) = (if Pong \<in> set evs then [f m] else [])"
proof (induction evs arbitrary: t)
  case Nil
  then show ?case by (simp add: waiting_def)
next
  case (Cons e evs)
  show ?case
  proof (cases "e = Pong")
    case True
    from waiting_pong [OF Cons.prems, of f]
    have u: "unsubscribed c (step f e t)" and w: "writes_by c (effects (step f e t)) = [f m]"
      using True by auto
    have "\<not> throws e t" using True by (simp add: throws_def)
    with unsubscribed_run [OF u, of f evs] w True show ?thesis by simp
  next
    case False
    from waiting_step [OF Cons.prems False, where f = f]
    have w: "waiting c m (step f e t)" and nt: "\<not> throws e t" by auto
    from Cons.IH [OF w] nt False show ?thesis by simp
  qed
qed

text \<open>Between the pong and its own write callback a call stays as it is.\<close>

lemma transmitting_step:
  "transmitting c t \<Longrightarrow> \<not> interferes c e \<Longrightarrow>
     transmitting c (step f e t) \<and> \<not> throws e t"
  by (cases e)
     (auto simp: transmitting_def interferes_def throws_def step_defs nth_append
                 nth_list_update)

lemma transmitting_run:
  "transmitting c t \<Longrightarrow> \<not> list_ex (interferes c) mid \<Longrightarrow>
     run f (mid @ rest) t = run f rest (run f mid t) \<and> transmitting c (run f mid t)"
proof (induction mid arbitrary: t)
  case Nil
  then show ?case by simp
next
  case (Cons e mid)
  from Cons.prems have ni: "\<not> interferes c e"
    and rest: "\<not> list_ex (interferes c) mid" by auto
  from transmitting_step [OF Cons.prems(1) ni, where f = f]
  have tr: "transmitting c (step f e t)" and nth: "\<not> throws e t" by auto
  from Cons.IH [OF tr rest] nth show ?case by simp
qed

text \<open>Only its timer settles the promise of a call: with the timer not armed the
  outcome stays what it is, whatever happens afterwards.\<close>

lemma disarmed_step:
  "c < length (calls t) \<Longrightarrow> timeoutId (calls t ! c) \<noteq> Armed \<Longrightarrow>
     c < length (calls (step f e t)) \<and> timeoutId (calls (step f e t) ! c) \<noteq> Armed \<and>
     outcome (calls (step f e t) ! c) = outcome (calls t ! c)"
  by (cases e)
     (auto simp: step_defs nth_append nth_list_update split: option.splits)

lemma disarmed_run:
  "c < length (calls t) \<Longrightarrow> timeoutId (calls t ! c) \<noteq> Armed \<Longrightarrow>
     outcome (calls (run f evs t) ! c) = outcome (calls t ! c)"
proof (induction evs arbitrary: t)
  case Nil
  then show ?case by simp
next
  case (Cons e evs)
  from disarmed_step [OF Cons.prems, of f e]
  have l: "c < length (calls (step f e t))"
    and a: "timeoutId (calls (step f e t) ! c) \<noteq> Armed"
    and o: "outcome (calls (step f e t) ! c) = outcome (calls t ! c)" by auto
  from Cons.IH [OF l a] o show ?case by simp
qed

text \<open>\<open>success\<close> is set only together with \<open>clearTimeout\<close>, so an armed timer never finds
  it set.\<close>

lemma never_resolved_step:
  "c < length (calls t) \<Longrightarrow> outcome (calls t ! c) \<noteq> Resolved \<Longrightarrow>
   (success (calls t ! c) \<longrightarrow> timeoutId (calls t ! c) \<noteq> Armed) \<Longrightarrow>
     c < length (calls (step f e t)) \<and> outcome (calls (step f e t) ! c) \<noteq> Resolved \<and>
     (success (calls (step f e t) ! c) \<longrightarrow> timeoutId (calls (step f e t) ! c) \<noteq> Armed)"
  by (cases e)
     (auto simp: step_defs nth_append nth_list_update split: option.splits)

lemma never_resolved_run:
  "c < length (calls t) \<Longrightarrow> outcome (calls t ! c) \<noteq> Resolved \<Longrightarrow>
   (success (calls t ! c) \<longrightarrow> timeoutId (calls t ! c) \<noteq> Armed) \<Longrightarrow>
     outcome (calls (run f evs t) ! c) \<noteq> Resolved"
proof (induction evs arbitrary: t)
  case Nil
  then show ?case by simp
next
  case (Cons e evs)
  from never_resolved_step [OF Cons.prems, of f e]
  have l: "c < length (calls (step f e t))"
    and o: "outcome (calls (step f e t) ! c) \<noteq> Resolved"
    and s: "success (calls (step f e t) ! c) \<longrightarrow> timeoutId (calls (step f e t) ! c) \<noteq> Armed"
    by auto
  from Cons.IH [OF l o s] o show ?case by simp
qed

text \<open>Sessions that come about by calls and events are well formed.\<close>

lemma well_formed_new: "well_formed (new_session rs)"
  by (simp add: well_formed_def new_session_def)

lemma well_formed_step: "well_formed s \<Longrightarrow> well_formed (step f e s)"
  by (cases e)
     (auto simp: well_formed_def step_defs list_all_iff writers_listeners
           split: option.splits dest: notin_set_remove1 less_SucI)

lemma well_formed_run: "well_formed s \<Longrightarrow> well_formed (run f evs s)"
proof (induction evs arbitrary: s)
  case Nil
  then show ?case by simp
next
  case (Cons e evs)
  from Cons.IH [OF well_formed_step [OF Cons.prems, of f e]]
       well_formed_step [OF Cons.prems, of f e]
  show ?case by simp
qed

text \<open>The run of a call up to the moment its listener has run, before its timer.\<close>

lemma run_to_transmitting:
  assumes op: "readyState s = OPEN" and wf: "well_formed s" and idle: "write_cbs s = []"
    and c: "c = length (calls s)"
    and pre: "Pong \<notin> set pre" "Timeout c \<notin> set pre"
    and mid: "\<not> list_ex (interferes c) mid"
  shows "run f (pre @ Pong # mid @ rest) (send m s) =
           run f rest (run f (pre @ Pong # mid) (send m s)) \<and>
         transmitting c (run f (pre @ Pong # mid) (send m s)) \<and>
         writes_by c (effects (run f (pre @ Pong # mid) (send m s))) = [f m]"
proof -
  let ?s0 = "send m s"
  let ?t1 = "run f pre ?s0"
  let ?t2 = "on_pong f ?t1"
  have w0: "waiting c m ?s0" using waiting_send [OF op wf idle] c by simp
  then have q0: "quiet c ?s0" by (simp add: waiting_def)
  have split1: "\<And>r. run f (pre @ r) ?s0 = run f r ?t1"
    using quiet_run [OF q0 pre(1)] by blast
  have q1: "quiet c ?t1" using quiet_run [OF q0 pre(1), where rest = "[]"] by blast
  have w1: "waiting c m ?t1" using waiting_run [OF w0 pre(1)] .
  have a1: "timeoutId (calls ?t1 ! c) = Armed \<and> outcome (calls ?t1 ! c) = Pending \<and>
            \<not> success (calls ?t1 ! c)"
    using armed_send [OF op, of m] c
    by (intro armed_run [OF q0 _ _ _ pre]) simp_all
  have nt: "\<not> throws Pong ?t1" by (simp add: throws_def)
  from waiting_pong [OF w1, of f]
  have u2: "unsubscribed c ?t2" and wr2: "writes_by c (effects ?t2) = [f m]"
    and cb2: "c \<in> set (write_cbs ?t2)" and calls2: "calls ?t2 = calls ?t1" by auto
  have tr2: "transmitting c ?t2"
    using u2 cb2 calls2 a1 by (simp add: transmitting_def unsubscribed_def)
  have split2: "\<And>r. run f (mid @ r) ?t2 = run f r (run f mid ?t2)"
    using transmitting_run [OF tr2 mid] by blast
  have tr3: "transmitting c (run f mid ?t2)"
    using transmitting_run [OF tr2 mid, where rest = "[]"] by blast
  have wr3: "writes_by c (effects (run f mid ?t2)) = [f m]"
    using unsubscribed_run [OF u2, of f mid] wr2 by simp
  have e1: "run f (pre @ Pong # mid) ?s0 = run f mid ?t2"
    using split1 [of "Pong # mid"] nt by simp
  have e2: "run f (pre @ Pong # mid @ rest) ?s0 = run f rest (run f mid ?t2)"
    using split1 [of "Pong # mid @ rest"] split2 [of rest] nt by simp
  from e1 e2 tr3 wr3 show ?thesis by simp
qed

text \<open>The run of a call up to its timer, with no pong before.\<close>

lemma timed_out:
  assumes op: "readyState s = OPEN" and idle: "write_cbs s = []"
    and c: "c = length (calls s)" and pre: "Pong \<notin> set pre"
  shows "run f (pre @ Timeout c # post) (send m s) =
           run f post (run f (pre @ [Timeout c]) (send m s)) \<and>
         c < length (calls (run f (pre @ [Timeout c]) (send m s))) \<and>
         timeoutId (calls (run f (pre @ [Timeout c]) (send m s)) ! c) = Fired \<and>
         outcome (calls (run f (pre @ [Timeout c]) (send m s)) ! c) =
           Rejected send_failed_error \<and>
         writes (effects (run f (pre @ [Timeout c]) (send m s))) = writes (effects s)"
proof -
  let ?s0 = "send m s"
  let ?t1 = "run f pre ?s0"
  have q0: "quiet c ?s0" using quiet_send [OF idle, of m] c by simp
  have p0: "probing c ?s0" using probing_send [OF op, of m] c by simp
  have w0: "writes (effects ?s0) = writes (effects s)" using op by (simp add: send_def)
  have split1: "\<And>r. run f (pre @ r) ?s0 = run f r ?t1"
    using quiet_run [OF q0 pre] by blast
  from quiet_run [OF q0 pre, where rest = "[]" and f = f]
  have q1: "quiet c ?t1" and w1: "writes (effects ?t1) = writes (effects ?s0)" by blast+
  have p1: "probing c ?t1" using probing_run [OF q0 p0 pre] .
  have nt: "\<not> throws (Timeout c) ?t1" by (simp add: throws_def)
  have e1: "run f (pre @ [Timeout c]) ?s0 = on_timeout c ?t1"
    using split1 [of "[Timeout c]"] nt by simp
  have e2: "run f (pre @ Timeout c # post) ?s0 = run f post (on_timeout c ?t1)"
    using split1 [of "Timeout c # post"] nt by simp
  from quiet_step [OF q1, of "Timeout c" f]
  have q2: "quiet c (on_timeout c ?t1)"
    and w2: "writes (effects (on_timeout c ?t1)) = writes (effects ?t1)" by auto
  from probing_timeout [OF q1 p1] e1 e2 q2 w2 w1 w0 show ?thesis
    by (simp add: quiet_def)
qed

section \<open>Properties of \<open>send\<close> and \<open>close\<close>\<close>

text \<open>
  The statements below are about one call of \<open>send\<close>, made on any well-formed session,
  and the events that follow it; \<open>c\<close> is the number of that call. The session may hold
  listeners of earlier calls, and further calls may be made while this one is under
  way. Where the course of the call matters, the socket holds no write callback when
  the call is made (\<open>write_cbs s = []\<close>). The serialiser \<open>JSON.stringify\<close> is the
  parameter \<open>f\<close>.
\<close>

lemmas eval_defs = new_session_def send_def on_pong_def pong_listener_def on_write_done_def
  on_timeout_def update_call_def outstanding_def throws_def clearTimeout_def well_formed_def
  interferes_def send_failed_error_def closed_error_def session_type_def

text \<open>
  C1. The claim: on an open connection, when the pong arrives within the bound and the
  write completes without error, \<open>send\<close> resolves. The code does not: the successful
  write callback sets \<open>success\<close> and calls \<open>clearTimeout\<close>, and the cancelled timer was
  the only caller of \<open>resolve\<close>, so the awaited promise never settles. For every run in
  which the first pong and then the successful write callback of the call come before
  its timer, the payload has been handed to the socket once, \<open>success\<close> is set, the
  timer is cleared, and the call is still pending after any further events. More
  generally no run ever leaves the call resolved.
\<close>

theorem send_success_never_resolves:
  assumes op: "readyState s = OPEN" and wf: "well_formed s" and idle: "write_cbs s = []"
    and c: "c = length (calls s)"
    and pre: "Pong \<notin> set pre" "Timeout c \<notin> set pre"
    and mid: "\<not> list_ex (interferes c) mid"
  shows "outcome (calls (run f (pre @ Pong # mid @ WriteDone c None # post) (send m s)) ! c) =
           Pending \<and>
         success (calls (run f (pre @ Pong # mid @ [WriteDone c None]) (send m s)) ! c) \<and>
         timeoutId (calls (run f (pre @ Pong # mid @ [WriteDone c None]) (send m s)) ! c) =
           Cleared \<and>
         writes_by c (effects (run f (pre @ Pong # mid @ [WriteDone c None]) (send m s))) =
           [f m] \<and>
         outcome (calls (run f evs (send m s)) ! c) \<noteq> Resolved"
proof -
  let ?t = "run f (pre @ Pong # mid) (send m s)"
  let ?u = "on_write_done c None ?t"
  note tx = run_to_transmitting [OF op wf idle c pre mid, where f = f and m = m]
  from tx have tr: "transmitting c ?t" and wr: "writes_by c (effects ?t) = [f m]" by blast+
  have nt: "\<not> throws (WriteDone c None) ?t" by (simp add: throws_def)
  have one: "run f (pre @ Pong # mid @ [WriteDone c None]) (send m s) = ?u"
    using tx [where rest = "[WriteDone c None]"] nt by simp
  have all: "run f (pre @ Pong # mid @ WriteDone c None # post) (send m s) = run f post ?u"
    using tx [where rest = "WriteDone c None # post"] nt by simp
  have u: "c < length (calls ?u) \<and> success (calls ?u ! c) \<and>
           timeoutId (calls ?u ! c) = Cleared \<and> outcome (calls ?u ! c) = Pending \<and>
           writes_by c (effects ?u) = [f m]"
    using tr wr by (simp add: transmitting_def step_defs)
  have "outcome (calls (run f post ?u) ! c) = outcome (calls ?u ! c)"
    using u by (intro disarmed_run) simp_all
  with u have pending: "outcome (calls (run f post ?u) ! c) = Pending" by simp
  have never: "outcome (calls (run f evs (send m s)) ! c) \<noteq> Resolved"
    using op c by (intro never_resolved_run) (simp_all add: send_def)
  from u one all pending never show ?thesis by simp
qed

theorem send_success_never_resolves_witness:
  "outcome (calls (run id [Pong, WriteDone 0 None, WriteDone 1 None, Timeout 1, Pong]
                     (send ''m2'' (run id [Timeout 0] (send ''m1'' (new_session OPEN))))) ! 1) =
     Pending \<and>
   writes_by 1 (effects (run id [Pong, WriteDone 0 None, WriteDone 1 None]
                  (send ''m2'' (run id [Timeout 0] (send ''m1'' (new_session OPEN)))))) =
     [''m2'']"
  using send_success_never_resolves
          [where s = "run id [Timeout 0] (send ''m1'' (new_session OPEN))" and c = 1
             and pre = "[]" and mid = "[WriteDone 0 None]" and f = id
             and post = "[Timeout 1, Pong]" and m = "''m2''" and evs = "[]"]
  by (simp add: eval_defs)

text \<open>
  C2. The claim: when the pong arrives in time and the write reports an error, \<open>send\<close>
  fails with the send-failed error, reported to its caller. The code throws that error
  inside the callback of \<open>socket.send\<close>, where no caller of \<open>send\<close> can receive it: the
  exception leaves the callback uncaught. In a process without a handler for uncaught
  exceptions, as the sample mediator is, that ends the process: nothing after the throw
  is run, the timer of the call never fires, and the call is left pending for good.
\<close>

theorem write_error_not_reported:
  assumes op: "readyState s = OPEN" and wf: "well_formed s" and idle: "write_cbs s = []"
    and c: "c = length (calls s)"
    and pre: "Pong \<notin> set pre" "Timeout c \<notin> set pre"
    and mid: "\<not> list_ex (interferes c) mid"
    and nh: "\<not> uncaught_handler s"
  shows "run f (pre @ Pong # mid @ WriteDone c (Some e) # post) (send m s) =
           run f (pre @ Pong # mid @ [WriteDone c (Some e)]) (send m s) \<and>
         outcome (calls (run f (pre @ Pong # mid @ WriteDone c (Some e) # post) (send m s)) ! c) =
           Pending \<and>
         effects (run f (pre @ Pong # mid @ WriteDone c (Some e) # post) (send m s)) =
           effects (run f (pre @ Pong # mid) (send m s)) @
             [LogError (''Error sending message: '' @ e), Uncaught send_failed_error] \<and>
         writes_by c (effects (run f (pre @ Pong # mid @ WriteDone c (Some e) # post) (send m s))) =
           [f m]"
proof -
  let ?t = "run f (pre @ Pong # mid) (send m s)"
  let ?u = "on_write_done c (Some e) ?t"
  note tx = run_to_transmitting [OF op wf idle c pre mid, where f = f and m = m]
  from tx have tr: "transmitting c ?t" and wr: "writes_by c (effects ?t) = [f m]" by blast+
  have th: "throws (WriteDone c (Some e)) ?t"
    using tr by (simp add: throws_def transmitting_def outstanding_def)
  have h: "\<not> uncaught_handler ?t" using nh by (simp add: send_def)
  have one: "run f (pre @ Pong # mid @ [WriteDone c (Some e)]) (send m s) = ?u"
    using tx [where rest = "[WriteDone c (Some e)]"] by simp
  have all: "run f (pre @ Pong # mid @ WriteDone c (Some e) # post) (send m s) = ?u"
    using tx [where rest = "WriteDone c (Some e) # post"] th h by simp
  have u: "outcome (calls ?u ! c) = Pending \<and>
           effects ?u = effects ?t @
             [LogError (''Error sending message: '' @ e), Uncaught send_failed_error] \<and>
           writes_by c (effects ?u) = [f m]"
    using tr wr by (simp add: transmitting_def step_defs)
  show ?thesis unfolding all one using u by blast
qed

theorem write_error_not_reported_witness:
  "outcome (calls (run id [Pong, WriteDone 0 (Some ''EPIPE''), Timeout 0]
                     (send ''msg'' (new_session OPEN))) ! 0) = Pending \<and>
   effects (run id [Pong, WriteDone 0 (Some ''EPIPE''), Timeout 0]
              (send ''msg'' (new_session OPEN))) =
     [Ping ''ping'', Write 0 ''msg'', LogError ''Error sending message: EPIPE'',
      Uncaught (AriesFrameworkError ''WebSocket send message failed.'')] \<and>
   outcome (calls (run id [Pong, WriteDone 0 None, WriteDone 1 (Some ''EPIPE''), Timeout 1]
                     (send ''m2'' (run id [Timeout 0] (send ''m1'' (new_session OPEN))))) ! 1) =
     Pending"
  using write_error_not_reported
          [where s = "new_session OPEN" and c = 0 and pre = "[]" and mid = "[]" and f = id
             and e = "''EPIPE''" and post = "[Timeout 0]" and m = "''msg''"]
        write_error_not_reported
          [where s = "run id [Timeout 0] (send ''m1'' (new_session OPEN))" and c = 1
             and pre = "[]" and mid = "[WriteDone 0 None]" and f = id
             and e = "''EPIPE''" and post = "[Timeout 1]" and m = "''m2''"]
  by (simp add: eval_defs)

text \<open>
  In a process that does handle uncaught exceptions the loop goes on after the throw.
  The call is still pending then, and it is its timer, never cleared on this path, that
  rejects it, through the branch that logs a failed ping.
\<close>

lemma write_error_with_handler:
  assumes op: "readyState s = OPEN" and wf: "well_formed s" and idle: "write_cbs s = []"
    and c: "c = length (calls s)"
    and pre: "Pong \<notin> set pre" "Timeout c \<notin> set pre"
    and mid: "\<not> list_ex (interferes c) mid"
    and h: "uncaught_handler s"
  shows "outcome (calls (run f (pre @ Pong # mid @ [WriteDone c (Some e)]) (send m s)) ! c) =
           Pending \<and>
         outcome (calls (run f (pre @ Pong # mid @ [WriteDone c (Some e), Timeout c])
                           (send m s)) ! c) = Rejected send_failed_error"
proof -
  let ?t = "run f (pre @ Pong # mid) (send m s)"
  note tx = run_to_transmitting [OF op wf idle c pre mid, where f = f and m = m]
  from tx have tr: "transmitting c ?t" by blast
  have hh: "uncaught_handler ?t" using h by (simp add: send_def)
  have one: "run f (pre @ Pong # mid @ [WriteDone c (Some e)]) (send m s) =
               on_write_done c (Some e) ?t"
    using tx [where rest = "[WriteDone c (Some e)]"] hh by simp
  have nt: "\<not> throws (Timeout c) (on_write_done c (Some e) ?t)" by (simp add: throws_def)
  have two: "run f (pre @ Pong # mid @ [WriteDone c (Some e), Timeout c]) (send m s) =
               on_timeout c (on_write_done c (Some e) ?t)"
    using tx [where rest = "[WriteDone c (Some e), Timeout c]"] hh nt by simp
  show ?thesis unfolding one two
    using tr by (simp add: transmitting_def step_defs)
qed

text \<open>
  C3, as the claim states it, fails: a call that has timed out leaves its \<open>pong\<close>
  listener registered, and a pong that arrives afterwards writes the payload.
\<close>

theorem late_pong_writes_after_timeout:
  "outcome (calls (run id [Timeout 0] (send ''msg'' (new_session OPEN))) ! 0) =
     Rejected (AriesFrameworkError ''WebSocket send message failed.'') \<and>
   pong_listeners (run id [Timeout 0] (send ''msg'' (new_session OPEN))) = [0] \<and>
   effects (run id [Timeout 0, Pong] (send ''msg'' (new_session OPEN))) =
     [Ping ''ping'', LogError ''Error pinging endpoint'', Write 0 ''msg'']"
  by (simp add: eval_defs)

text \<open>
  C3, amended. For every \<open>send\<close> on an open session that ends with the timeout failure
  (no pong before the timer fires), the \<open>pong\<close> listener is not cancelled: it is still
  registered after the failure, a pong arriving later makes it hand the payload to the
  socket, exactly once, and the failure already reported stays as it is.
\<close>

theorem timeout_keeps_pong_subscription:
  assumes op: "readyState s = OPEN" and wf: "well_formed s" and idle: "write_cbs s = []"
    and c: "c = length (calls s)" and pre: "Pong \<notin> set pre"
  shows "outcome (calls (run f (pre @ [Timeout c]) (send m s)) ! c) =
           Rejected send_failed_error \<and>
         c \<in> set (pong_listeners (run f (pre @ [Timeout c]) (send m s))) \<and>
         (Pong \<in> set post \<longrightarrow>
            writes_by c (effects (run f (pre @ Timeout c # post) (send m s))) = [f m]) \<and>
         outcome (calls (run f (pre @ Timeout c # post) (send m s)) ! c) =
           Rejected send_failed_error"
proof -
  let ?t = "run f (pre @ [Timeout c]) (send m s)"
  from timed_out [OF op idle c pre, where f = f and m = m]
  have split: "\<And>post. run f (pre @ Timeout c # post) (send m s) = run f post ?t"
    and l: "c < length (calls ?t)" and t: "timeoutId (calls ?t ! c) = Fired"
    and o: "outcome (calls ?t ! c) = Rejected send_failed_error" by blast+
  have w0: "waiting c m (send m s)" using waiting_send [OF op wf idle] c by simp
  have "Pong \<notin> set (pre @ [Timeout c])" using pre by simp
  then have w: "waiting c m ?t" using w0 by (intro waiting_run)
  then have "filter (\<lambda>i. i = c) (pong_listeners ?t) = [c]" by (simp add: waiting_def)
  then have "c \<in> set (filter (\<lambda>i. i = c) (pong_listeners ?t))" by simp
  then have sub: "c \<in> set (pong_listeners ?t)" by simp
  have late: "Pong \<in> set post \<longrightarrow> writes_by c (effects (run f post ?t)) = [f m]"
    using waiting_writes [OF w, of f post] by simp
  have still: "outcome (calls (run f post ?t) ! c) = Rejected send_failed_error"
    using disarmed_run [OF l, of f post] t o by simp
  from o sub late still split [of post] show ?thesis by simp
qed

theorem timeout_keeps_pong_subscription_witness:
  "pong_listeners (run id [Timeout 1]
                     (send ''m2'' (run id [Timeout 0] (send ''m1'' (new_session OPEN))))) =
     [0, 1] \<and>
   writes_by 1 (effects (run id [Timeout 1, Pong, Pong]
                  (send ''m2'' (run id [Timeout 0] (send ''m1'' (new_session OPEN)))))) =
     [''m2''] \<and>
   writes (effects (run id [Timeout 1, Pong, Pong]
             (send ''m2'' (run id [Timeout 0] (send ''m1'' (new_session OPEN)))))) =
     [''m1'', ''m2''] \<and>
   outcome (calls (run id [Timeout 1, Pong, Pong]
                     (send ''m2'' (run id [Timeout 0] (send ''m1'' (new_session OPEN))))) ! 1) =
     Rejected (AriesFrameworkError ''WebSocket send message failed.'')"
  using timeout_keeps_pong_subscription
          [where s = "run id [Timeout 0] (send ''m1'' (new_session OPEN))" and c = 1
             and pre = "[]" and f = id and m = "''m2''" and post = "[Pong, Pong]"]
  by (simp add: eval_defs)

text \<open>
  C4. A \<open>send\<close> on a session whose socket is not open fails at once with the
  closed-session error: the promise is rejected by the call itself, before any event,
  and nothing else changes, so no ping is emitted, no listener is registered, no timer
  is started and no payload is written. No later event changes that outcome.
\<close>

theorem send_closed_fails_immediately:
  "readyState s \<noteq> OPEN \<Longrightarrow>
     send m s =
       s\<lparr>calls := calls s @
            [\<lparr>encryptedMessage = m, success = False, timeoutId = Null,
              outcome = Rejected closed_error\<rparr>]\<rparr> \<and>
     outcome (calls (send m s) ! length (calls s)) = Rejected closed_error \<and>
     pings (effects (send m s)) = pings (effects s) \<and>
     writes (effects (send m s)) = writes (effects s) \<and>
     pong_listeners (send m s) = pong_listeners s \<and>
     timeoutId (calls (send m s) ! length (calls s)) = Null \<and>
     outcome (calls (run f evs (send m s)) ! length (calls s)) = Rejected closed_error"
proof -
  assume closed: "readyState s \<noteq> OPEN"
  have "outcome (calls (run f evs (send m s)) ! length (calls s)) =
          outcome (calls (send m s) ! length (calls s))"
    using closed by (intro disarmed_run) (simp_all add: send_def)
  with closed show ?thesis by (simp add: send_def)
qed

theorem send_closed_fails_immediately_witness:
  "readyState (new_session CLOSED :: string session) \<noteq> OPEN \<and>
   outcome (calls (send ''msg'' (new_session CLOSED)) ! 0) =
     Rejected (AriesFrameworkError ''WebSocket transport session has been closed.'') \<and>
   effects (send ''msg'' (new_session CLOSED)) = [] \<and>
   pong_listeners (send ''msg'' (new_session CLOSED)) = []"
  using send_closed_fails_immediately
          [where s = "new_session CLOSED :: string session" and m = "''msg''" and f = id
             and evs = "[]"]
  by (simp add: eval_defs)

text \<open>
  C5, as the claim states it, fails in one point: the error of the timeout is not
  distinct from the error of a failed write. Both places build the same
  \<open>AriesFrameworkError\<close> with the same message.
\<close>

theorem timeout_error_equals_write_error:
  "outcome (calls (run id [Timeout 0] (send ''msg'' (new_session OPEN))) ! 0) =
     Rejected (AriesFrameworkError ''WebSocket send message failed.'') \<and>
   effects (run id [Pong, WriteDone 0 (Some ''EPIPE'')] (send ''msg'' (new_session OPEN))) =
     [Ping ''ping'', Write 0 ''msg'', LogError ''Error sending message: EPIPE'',
      Uncaught (AriesFrameworkError ''WebSocket send message failed.'')]"
  by (simp add: eval_defs)

text \<open>
  C5, amended. For every \<open>send\<close> on an open session where no pong arrives before the
  timer of the call fires, \<open>send\<close> fails with the send-failed error (the error the
  write-error path raises as well; it differs from the closed-session error), and no
  payload has been written when the call fails.
\<close>

theorem send_timeout_fails_without_write:
  assumes "readyState s = OPEN" and "write_cbs s = []" and "Pong \<notin> set pre"
  shows "outcome (calls (run f (pre @ [Timeout (length (calls s))]) (send m s))
                   ! length (calls s)) = Rejected send_failed_error \<and>
         writes (effects (run f (pre @ [Timeout (length (calls s))]) (send m s))) =
           writes (effects s) \<and>
         send_failed_error \<noteq> closed_error"
  using timed_out [OF assms(1,2) refl assms(3), where f = f and m = m and post = "[]"]
  by (simp add: send_failed_error_def closed_error_def)

theorem send_timeout_fails_without_write_witness:
  "outcome (calls (run id [WriteDone 0 None, Call ''other'', Timeout 0]
                     (send ''msg'' (new_session OPEN))) ! 0) =
     Rejected (AriesFrameworkError ''WebSocket send message failed.'') \<and>
   writes (effects (run id [WriteDone 0 None, Call ''other'', Timeout 0]
                      (send ''msg'' (new_session OPEN)))) = []"
  using send_timeout_fails_without_write
          [where s = "new_session OPEN" and pre = "[WriteDone 0 None, Call ''other'']"
             and f = id and m = "''msg''"]
  by (simp add: eval_defs)



text \<open>
  C9. \<open>close\<close> is idempotent. On an open session it calls \<open>socket.close()\<close>; on a session
  that is not open it changes nothing (the function has no failing branch). As the
  library's \<open>socket.close()\<close> leaves the socket in a state other than open, a second
  \<open>close\<close> has no further effect.
\<close>

theorem close_idempotent:
  assumes "\<And>t. readyState (socket_close t) \<noteq> OPEN"
  shows "(readyState s = OPEN \<longrightarrow> close socket_close s = socket_close s) \<and>
         (readyState s \<noteq> OPEN \<longrightarrow> close socket_close s = s) \<and>
         close socket_close (close socket_close s) = close socket_close s"
  using assms by (simp add: close_def)

theorem close_idempotent_witness:
  "close ws_close (close ws_close (new_session OPEN :: string session)) =
     close ws_close (new_session OPEN) \<and>
   effects (close ws_close (close ws_close (new_session OPEN :: string session))) =
     [SocketClose] \<and>
   close ws_close (new_session CLOSED :: string session) = new_session CLOSED"
  using close_idempotent [of ws_close "new_session OPEN :: string session"]
        close_idempotent [of ws_close "new_session CLOSED :: string session"]
  by (simp add: ws_close_def new_session_def close_def)

section \<open>Properties of the inbound transport\<close>

text \<open>The handlers of \<open>message\<close> and \<open>close\<close> events leave the map and the listeners
  alone; they add calls of the collaborators and log lines.\<close>

lemma handle_message_keeps:
  "socketIds (handle_message p r d session t) = socketIds t \<and>
   message_listeners (handle_message p r d session t) = message_listeners t \<and>
   close_listeners (handle_message p r d session t) = close_listeners t \<and>
   removed (handle_message p r d session t) = removed t"
  by (simp add: handle_message_def debug_def log_error_def Let_def split: sum.splits option.splits)

lemma handle_close_keeps:
  "socketIds (handle_close session t) = socketIds t \<and>
   message_listeners (handle_close session t) = message_listeners t \<and>
   close_listeners (handle_close session t) = close_listeners t \<and>
   received (handle_close session t) = received t"
  by (simp add: handle_close_def debug_def Let_def)

lemma emit_handle_message_keeps:
  "socketIds (emit (handle_message p r d) socket ls t) = socketIds t \<and>
   message_listeners (emit (handle_message p r d) socket ls t) = message_listeners t \<and>
   close_listeners (emit (handle_message p r d) socket ls t) = close_listeners t \<and>
   removed (emit (handle_message p r d) socket ls t) = removed t"
  by (induction ls arbitrary: t) (auto simp: handle_message_keeps)

lemma emit_handle_close_keeps:
  "socketIds (emit handle_close socket ls t) = socketIds t \<and>
   message_listeners (emit handle_close socket ls t) = message_listeners t \<and>
   close_listeners (emit handle_close socket ls t) = close_listeners t \<and>
   received (emit handle_close socket ls t) = received t"
  by (induction ls arbitrary: t) (auto simp: handle_close_keeps)

lemma emit_handle_close_removed:
  "removed (emit handle_close socket ls t) = removed t @ sessions_on socket ls"
  by (induction ls arbitrary: t) (auto simp: sessions_on_def handle_close_def debug_def Let_def)

lemma emit_handle_message_received:
  "p d = Inr j \<Longrightarrow>
     received (emit (handle_message p r d) socket ls t) =
       received t @ map (Pair j) (sessions_on socket ls)"
  by (induction ls arbitrary: t)
     (auto simp: sessions_on_def handle_message_def debug_def log_error_def Let_def
           split: option.splits)

lemma on_connection_socketIds:
  "socketIds (on_connection socket socketId t) =
     (case socketIds t socketId of
        None \<Rightarrow> (socketIds t)(socketId \<mapsto> socket)
      | Some _ \<Rightarrow> socketIds t)"
  by (simp add: on_connection_def debug_def Let_def split: option.splits)

lemma on_connection_close_listeners:
  "close_listeners (on_connection socket socketId t) =
     (case socketIds t socketId of
        None \<Rightarrow> close_listeners t @ [(socket, (socketId, socket))]
      | Some _ \<Rightarrow> close_listeners t)"
  by (simp add: on_connection_def debug_def Let_def split: option.splits)

lemma on_connection_message_listeners:
  "message_listeners (on_connection socket socketId t) =
     (case socketIds t socketId of
        None \<Rightarrow> message_listeners t @ [(socket, (socketId, socket))]
      | Some _ \<Rightarrow> message_listeners t)"
  by (simp add: on_connection_def debug_def Let_def split: option.splits)

lemma step_socketIds:
  "socketIds t k = Some v \<Longrightarrow> socketIds (transport_step p r e t) k = Some v"
proof (cases e)
  case (Connection socket socketId)
  assume "socketIds t k = Some v"
  then show ?thesis using Connection
    by (auto simp: on_connection_socketIds split: option.splits)
next
  case (Message socket data)
  assume "socketIds t k = Some v"
  then show ?thesis using Message
    by (simp add: on_message_def emit_handle_message_keeps)
next
  case (Close socket)
  assume "socketIds t k = Some v"
  then show ?thesis using Close
    by (simp add: on_close_def emit_handle_close_keeps)
next
  case (Stop error)
  assume "socketIds t k = Some v"
  then show ?thesis using Stop
    by (simp add: stop_def debug_def)
qed

lemma run_socketIds:
  "socketIds t k = Some v \<Longrightarrow> socketIds (transport_run p r evs t) k = Some v"
proof (induction evs arbitrary: t)
  case Nil
  then show ?case by simp
next
  case (Cons e evs)
  from Cons.IH [OF step_socketIds [OF Cons.prems]] show ?case by simp
qed

lemma step_close_listeners:
  "\<not> connects socket e \<Longrightarrow>
     sessions_on socket (close_listeners (transport_step p r e t)) =
       sessions_on socket (close_listeners t)"
proof (cases e)
  case (Connection s socketId)
  assume "\<not> connects socket e"
  with Connection have "s \<noteq> socket" by (simp add: connects_def)
  with Connection show ?thesis
    by (simp add: on_connection_close_listeners sessions_on_def split: option.splits)
next
  case (Message s data)
  then show ?thesis by (simp add: on_message_def emit_handle_message_keeps)
next
  case (Close s)
  then show ?thesis by (simp add: on_close_def emit_handle_close_keeps)
next
  case (Stop error)
  then show ?thesis by (simp add: stop_def debug_def)
qed

lemma run_close_listeners:
  "\<not> list_ex (connects socket) evs \<Longrightarrow>
     sessions_on socket (close_listeners (transport_run p r evs t)) =
       sessions_on socket (close_listeners t)"
proof (induction evs arbitrary: t)
  case Nil
  then show ?case by simp
next
  case (Cons e evs)
  from Cons.prems have e: "\<not> connects socket e" and rest: "\<not> list_ex (connects socket) evs"
    by auto
  from Cons.IH [OF rest, of "transport_step p r e t"] step_close_listeners [OF e, of p r t]
  show ?case by simp
qed

lemma step_message_listeners:
  "\<not> connects socket e \<Longrightarrow>
     sessions_on socket (message_listeners (transport_step p r e t)) =
       sessions_on socket (message_listeners t)"
proof (cases e)
  case (Connection s socketId)
  assume "\<not> connects socket e"
  with Connection have "s \<noteq> socket" by (simp add: connects_def)
  with Connection show ?thesis
    by (simp add: on_connection_message_listeners sessions_on_def split: option.splits)
next
  case (Message s data)
  then show ?thesis by (simp add: on_message_def emit_handle_message_keeps)
next
  case (Close s)
  then show ?thesis by (simp add: on_close_def emit_handle_close_keeps)
next
  case (Stop error)
  then show ?thesis by (simp add: stop_def debug_def)
qed

lemma run_message_listeners:
  "\<not> list_ex (connects socket) evs \<Longrightarrow>
     sessions_on socket (message_listeners (transport_run p r evs t)) =
       sessions_on socket (message_listeners t)"
proof (induction evs arbitrary: t)
  case Nil
  then show ?case by simp
next
  case (Cons e evs)
  from Cons.prems have e: "\<not> connects socket e" and rest: "\<not> list_ex (connects socket) evs"
    by auto
  from Cons.IH [OF rest, of "transport_step p r e t"] step_message_listeners [OF e, of p r t]
  show ?case by simp
qed

lemma handle_message_fails:
  "frame_error p r d session = Some e \<Longrightarrow>
     handle_message p r d session t =
       t\<lparr>logged := logged t @ [DebugLine ''WebSocket message event received.'',
                                ErrorLine (''Error processing message: '' @ e)],
         received := received t @ (case p d of Inl _ \<Rightarrow> [] | Inr j \<Rightarrow> [(j, session)])\<rparr>"
  by (auto simp: frame_error_def handle_message_def debug_def log_error_def Let_def
           split: sum.splits option.splits)

text \<open>
  C7, as the claim states it, fails: the \<open>close\<close> handler notifies the registry, but
  the entry of the socket stays in the map.
\<close>

theorem close_leaves_socket_id:
  "socketIds (on_close 0 (on_connection 0 ''a'' new_transport)) ''a'' = Some 0 \<and>
   removed (on_close 0 (on_connection 0 ''a'' new_transport)) = [(''a'', 0)]"
  by (simp add: on_close_def on_connection_def new_transport_def debug_def
                handle_close_def Let_def)

text \<open>
  C7, amended. For every close event of an accepted connection (a socket accepted
  under a fresh id, with no other connection event for that socket since), the
  transport calls \<open>removeSession\<close> exactly once, with the session of that connection;
  the entry in the internal socket-id map is not removed.
\<close>

theorem close_notifies_registry_once:
  assumes fresh: "socketIds t socketId = None"
    and unheard: "sessions_on socket (close_listeners t) = []"
    and others: "\<not> list_ex (connects socket) evs"
  shows "removed (on_close socket (transport_run p r evs (on_connection socket socketId t))) =
           removed (transport_run p r evs (on_connection socket socketId t)) @
             [(socketId, socket)] \<and>
         socketIds (on_close socket (transport_run p r evs (on_connection socket socketId t)))
           socketId = Some socket"
proof -
  let ?c = "on_connection socket socketId t"
  let ?t = "transport_run p r evs ?c"
  have "sessions_on socket (close_listeners ?c) = [(socketId, socket)]"
    using fresh unheard by (simp add: on_connection_close_listeners sessions_on_def)
  with run_close_listeners [OF others, of p r ?c]
  have l: "sessions_on socket (close_listeners ?t) = [(socketId, socket)]" by simp
  have r: "removed (on_close socket ?t) = removed ?t @ [(socketId, socket)]"
    using l by (simp add: on_close_def emit_handle_close_removed)
  have "socketIds ?c socketId = Some socket"
    using fresh by (simp add: on_connection_socketIds)
  then have "socketIds ?t socketId = Some socket" by (rule run_socketIds)
  then have m: "socketIds (on_close socket ?t) socketId = Some socket"
    by (simp add: on_close_def emit_handle_close_keeps)
  from r m show ?thesis by simp
qed

theorem close_notifies_registry_once_witness:
  "removed (on_close 0 (transport_run Inr (\<lambda>m s. None)
              [Message 0 ''{}'', Connection 1 ''b'', Close 1]
              (on_connection 0 ''a'' new_transport))) = [(''b'', 1), (''a'', 0)] \<and>
   socketIds (on_close 0 (transport_run Inr (\<lambda>m s. None)
              [Message 0 ''{}'', Connection 1 ''b'', Close 1]
              (on_connection 0 ''a'' new_transport))) ''a'' = Some 0"
  using close_notifies_registry_once
          [of "new_transport :: string transport" "''a''" 0
              "[Message 0 ''{}'', Connection 1 ''b'', Close 1]" Inr "\<lambda>m s. None"]
  by (simp add: new_transport_def sessions_on_def connects_def on_connection_def
                on_message_def on_close_def handle_message_def handle_close_def
                debug_def Let_def)

text \<open>
  C8. For every inbound frame that fails to parse or whose processing throws, the
  handler logs the failure and does nothing else (apart from the call of
  \<open>receiveMessage\<close> that threw): the listeners of the socket, the map and the registry
  are as before, so the connection is not torn down, and a later frame that parses, on
  the same socket, is passed to \<open>receiveMessage\<close> for every session listening there.
\<close>

theorem failed_frame_logged_and_skipped:
  assumes "frame_error p r bad session = Some e"
  shows "handle_message p r bad session t =
           t\<lparr>logged := logged t @ [DebugLine ''WebSocket message event received.'',
                                    ErrorLine (''Error processing message: '' @ e)],
             received := received t @
               (case p bad of Inl _ \<Rightarrow> [] | Inr j \<Rightarrow> [(j, session)])\<rparr> \<and>
         message_listeners (on_message p r socket bad t) = message_listeners t \<and>
         close_listeners (on_message p r socket bad t) = close_listeners t \<and>
         socketIds (on_message p r socket bad t) = socketIds t \<and>
         removed (on_message p r socket bad t) = removed t \<and>
         (p good = Inr j \<and> \<not> list_ex (connects socket) evs \<longrightarrow>
            received (on_message p r socket good
                        (transport_run p r evs (on_message p r socket bad t))) =
              received (transport_run p r evs (on_message p r socket bad t)) @
                map (Pair j) (sessions_on socket (message_listeners t)))"
proof -
  let ?b = "on_message p r socket bad t"
  let ?u = "transport_run p r evs ?b"
  have kept: "message_listeners ?b = message_listeners t \<and>
              close_listeners ?b = close_listeners t \<and>
              socketIds ?b = socketIds t \<and> removed ?b = removed t"
    by (simp add: on_message_def emit_handle_message_keeps)
  have later: "received (on_message p r socket good ?u) =
                 received ?u @ map (Pair j) (sessions_on socket (message_listeners t))"
    if good: "p good = Inr j" and others: "\<not> list_ex (connects socket) evs"
  proof -
    have "sessions_on socket (message_listeners ?u) =
            sessions_on socket (message_listeners ?b)"
      using others by (rule run_message_listeners)
    with kept have "sessions_on socket (message_listeners ?u) =
                      sessions_on socket (message_listeners t)" by simp
    with emit_handle_message_received
           [where p = p and d = good and j = j and r = r and socket = socket
              and ls = "message_listeners ?u" and t = ?u] good
    show ?thesis by (simp add: on_message_def)
  qed
  from handle_message_fails [OF assms, of t] kept later show ?thesis by blast
qed

theorem failed_frame_logged_and_skipped_witness:
  "logged (on_message (\<lambda>d. if d = ''{}'' then Inr d else Inl ''SyntaxError'') (\<lambda>m s. None)
             0 ''{'' (on_connection 0 ''a'' new_transport)) =
     [DebugLine ''Socket connected.'', DebugLine ''Saving new socket with id a.'',
      DebugLine ''WebSocket message event received.'',
      ErrorLine ''Error processing message: SyntaxError''] \<and>
   received (on_message (\<lambda>d. if d = ''{}'' then Inr d else Inl ''SyntaxError'') (\<lambda>m s. None)
               0 ''{}''
               (transport_run (\<lambda>d. if d = ''{}'' then Inr d else Inl ''SyntaxError'')
                  (\<lambda>m s. None) [Connection 1 ''b'', Message 1 ''{'']
                  (on_message (\<lambda>d. if d = ''{}'' then Inr d else Inl ''SyntaxError'')
                     (\<lambda>m s. None) 0 ''{'' (on_connection 0 ''a'' new_transport)))) =
     [(''{}'', (''a'', 0))]"
  using failed_frame_logged_and_skipped
          [of "\<lambda>d. if d = ''{}'' then Inr d else Inl ''SyntaxError''" "\<lambda>m s. None"
              "''{''" "(''a'', 0)" "''SyntaxError''"
              "on_connection 0 ''a'' (new_transport :: string transport)" 0 "''{}''" "''{}''"
              "[Connection 1 ''b'', Message 1 ''{'']"]
  by (simp add: frame_error_def new_transport_def on_connection_def on_message_def
                handle_message_def sessions_on_def connects_def debug_def log_error_def
                Let_def)

text \<open>
  C10. The socket-id map only grows. An entry of the map is still there, with the same
  socket, after any sequence of connection, message, close and stop events; so the
  entry made for an accepted connection outlives the close of that connection.
\<close>

theorem socketIds_only_grows:
  "(socketIds t k = Some v \<longrightarrow> socketIds (transport_run p r evs t) k = Some v) \<and>
   (socketIds t k = None \<longrightarrow>
      socketIds (transport_run p r evs (on_connection socket k t)) k = Some socket)"
proof -
  have "socketIds t k = None \<Longrightarrow> socketIds (on_connection socket k t) k = Some socket"
    by (simp add: on_connection_socketIds)
  then show ?thesis using run_socketIds by metis
qed

theorem socketIds_only_grows_witness:
  "socketIds (transport_run Inr (\<lambda>m s. None)
                [Message 0 ''{}'', Close 0, Connection 1 ''a'', Stop None]
                (on_connection 0 ''a'' new_transport)) ''a'' = Some 0 \<and>
   socketIds (transport_run Inr (\<lambda>m s. None) [Close 0, Stop None]
                (on_connection 0 ''a'' new_transport)) ''a'' = Some 0"
  using socketIds_only_grows
          [of "new_transport :: string transport" "''a''" 0 Inr "\<lambda>m s. None"
              "[Message 0 ''{}'', Close 0, Connection 1 ''a'', Stop None]" 0]
        socketIds_only_grows
          [of "on_connection 0 ''a'' (new_transport :: string transport)" "''a''" 0
              Inr "\<lambda>m s. None" "[Close 0, Stop None]" 0]
  by (simp add: new_transport_def on_connection_def debug_def Let_def)

end
